theory Spec2Isabelle
  imports
    Main
    "HOL-Library.Word"
    "HOL-Library.AList"
    "HOL-Library.Char_ord"
    "HOL-Library.List_Lexorder"
    "HOL-Library.Signed_Division"
    "HOL-Library.Multiset"
begin

section \<open>The vote scanner of scripts/scanResults.js\<close>

text \<open>
  The script reads a list of plasma transactions and a list of proposals, keeps for every
  proposal and voter a running vote total, and writes for every proposal how many voters
  hold which total. This theory embeds the script's functions and proves the properties
  its specification states about them.

  Conventions of the embedding.
  \<^item> A JavaScript exception is a value \<open>Inl e\<close>; the script has no \<^verbatim>\<open>try\<close> and no
    \<^verbatim>\<open>catch\<close>, so an exception raised in any function ends the run.
  \<^item> A plain object used as a dictionary is an association list with distinct keys,
    updated with \<^const>\<open>AList.update\<close>. The order of an object's keys is read by the
    script only through \<^verbatim>\<open>sort\<close> and through a sum, so it does not reach the output.
    The two agree as long as no key names a property that every object inherits.
  \<^item> Numbers are \<^typ>\<open>int\<close>. \<^verbatim>\<open>toNumber\<close> refuses a value of more than 53 bits, which is
    modelled; a running total is the script's number as long as it stays in the range
    where a JavaScript number is an exact integer.
  \<^item> Both conditions are the predicate \<open>plainRun\<close> below. It is a hypothesis of the
    theorem on the value a step stores. The theorems on the distribution and on the file
    relate the ledger to its buckets and rows and do not depend on the values stored.
  \<^item> \<^verbatim>\<open>Tx.fromRaw\<close>, the ABI decoder and RIPEMD-160 belong to libraries. A transaction
    is modelled after parsing, with the fields the script reads; the two function
    selectors, the decoder for the parameter types of \<^verbatim>\<open>castBallot\<close> (the ABI file is
    not part of the sources) and the digest are parameters, collected in \<open>env\<close>.
\<close>

subsection \<open>Data\<close>

type_synonym byte = "8 word"
type_synonym address = string

record tx_input =
  msgData :: "byte list"
  script :: "byte list"
  signer :: address

record tx_output =
  address :: address
  color :: int
  outValue :: int

record tx =
  type :: int
  inputs :: "tx_input list"
  outputs :: "tx_output list"

record proposal =
  title :: string
  proposalId :: string
  boothAddress :: address
  yesBoxAddress :: address
  noBoxAddress :: address

datatype error = TypeError | DecodeError | NumericFault

text \<open>A decoded ABI parameter: a big number, or a value of any other kind.\<close>

datatype abi_value = ABigNumber int | AOther

record env =
  voteFuncSig :: string
  withdrawFuncSig :: string
  castBallotDecode :: "byte list \<Rightarrow> abi_value list option"
  ripemd160 :: "byte list \<Rightarrow> byte list"

text \<open>\<^verbatim>\<open>console.warn('Unknown proposal vote', JSON.stringify({ boxAddress }))\<close>\<close>

datatype diagnostic = UnknownProposalVote address

text \<open>
  The mutable state of the run: \<^verbatim>\<open>distr\<close>, \<^verbatim>\<open>voters\<close>, and the lines written
  with \<^verbatim>\<open>console.warn\<close>.
\<close>

record state =
  distr :: "(string \<times> (address \<times> int) list) list"
  voters :: "address set"
  warnings :: "diagnostic list"

record report =
  final :: state
  groupedDistr :: "(string \<times> (int \<times> int) list) list"
  distributionByVoteCSV :: "string list"

subsection \<open>Helpers for JavaScript values\<close>

definition andThen :: "error + 'a \<Rightarrow> ('a \<Rightarrow> error + 'b) \<Rightarrow> error + 'b" where
  "andThen m f = (case m of Inl e \<Rightarrow> Inl e | Inr x \<Rightarrow> f x)"

text \<open>\<^verbatim>\<open>xs[i]\<close>: \<^verbatim>\<open>undefined\<close> out of range.\<close>

definition at :: "'a list \<Rightarrow> nat \<Rightarrow> 'a option" where
  "at xs i = (if i < length xs then Some (xs ! i) else None)"

text \<open>\<^verbatim>\<open>obj[k] || 0\<close>\<close>

definition orZero :: "('k \<times> int) list \<Rightarrow> 'k \<Rightarrow> int" where
  "orZero obj k = (case map_of obj k of None \<Rightarrow> 0 | Some v \<Rightarrow> v)"

definition hexDigit :: "nat \<Rightarrow> char" where
  "hexDigit n = ''0123456789abcdef'' ! n"

definition toHex :: "byte list \<Rightarrow> string" where
  "toHex bs = concat (map (\<lambda>b. [hexDigit (unat b div 16), hexDigit (unat b mod 16)]) bs)"

definition bufferToHex :: "byte list \<Rightarrow> string" where
  "bufferToHex bs = ''0x'' @ toHex bs"

text \<open>\<^verbatim>\<open>String(n)\<close> for an integer.\<close>

fun showNat :: "nat \<Rightarrow> string" where
  "showNat n =
     (if n < 10 then [''0123456789'' ! n]
      else showNat (n div 10) @ [''0123456789'' ! (n mod 10)])"

declare showNat.simps [simp del]

definition showInt :: "int \<Rightarrow> string" where
  "showInt i = (if i < 0 then CHR ''-'' # showNat (nat (- i)) else showNat (nat i))"

text \<open>
  \<^verbatim>\<open>BigNumber.toNumber\<close>: the value as a number, an exception when it needs more
  than 53 bits.
\<close>

definition toNumber :: "int \<Rightarrow> error + int" where
  "toNumber n = (if \<bar>n\<bar> < 2 ^ 53 then Inr n else Inl NumericFault)"

definition factor18 :: int where
  "factor18 = 10 ^ 18"

subsection \<open>Classifying a transaction\<close>

text \<open>
  \<^verbatim>\<open>const getFuncSig = tx => tx.inputs[0].msgData.slice(0, 4).toString('hex');\<close>

  \<^verbatim>\<open>const isSpendie = tx => tx.type === 13;\<close>

  \<^verbatim>\<open>const isVote = tx => isSpendie(tx) && getFuncSig(tx) === voteFuncSig;\<close>

  \<^verbatim>\<open>const isWithdraw = tx => isSpendie(tx) && getFuncSig(tx) === withdrawFuncSig;\<close>

  Reading \<^verbatim>\<open>inputs[0]\<close> of a transaction without inputs is a \<^verbatim>\<open>TypeError\<close>; \<^verbatim>\<open>&&\<close>
  does not reach it unless the type is 13.
\<close>

definition getFuncSig :: "tx \<Rightarrow> error + string" where
  "getFuncSig t =
     (case inputs t of
        [] \<Rightarrow> Inl TypeError
      | i # _ \<Rightarrow> Inr (toHex (take 4 (msgData i))))"

definition isSpendie :: "tx \<Rightarrow> bool" where
  "isSpendie t = (type t = 13)"

definition isVote :: "env \<Rightarrow> tx \<Rightarrow> error + bool" where
  "isVote e t =
     (if isSpendie t then andThen (getFuncSig t) (\<lambda>s. Inr (s = voteFuncSig e))
      else Inr False)"

definition isWithdraw :: "env \<Rightarrow> tx \<Rightarrow> error + bool" where
  "isWithdraw e t =
     (if isSpendie t then andThen (getFuncSig t) (\<lambda>s. Inr (s = withdrawFuncSig e))
      else Inr False)"

subsection \<open>Decoding\<close>

text \<open>
  \<^verbatim>\<open>const msgDataParams = bufferToHex(tx.inputs[0].msgData.slice(4));\<close>

  \<^verbatim>\<open>const paramTypes = booth.functions.castBallot.inputs.map(i => i.type);\<close>

  \<^verbatim>\<open>const params = ethers.utils.defaultAbiCoder.decode(paramTypes, msgDataParams);\<close>

  \<^verbatim>\<open>const votes = params[3].div(factor18).toNumber();\<close>

  \<^verbatim>\<open>return isWithdraw(tx) ? -votes : votes;\<close>

  The payload after the selector is decoded with the parameter types of \<^verbatim>\<open>castBallot\<close>,
  whatever the call. \<open>castBallotDecode\<close> stands for the decoder with these types:
  \<open>None\<close> when it throws. The division of big numbers truncates towards zero, which
  is \<open>sdiv\<close>. A fourth value that is missing or is no big number has no \<^verbatim>\<open>div\<close>: a
  \<^verbatim>\<open>TypeError\<close>.
\<close>

definition getVotes :: "env \<Rightarrow> tx \<Rightarrow> error + int" where
  "getVotes e t =
     (case inputs t of
        [] \<Rightarrow> Inl TypeError
      | i # _ \<Rightarrow>
          (case castBallotDecode e (drop 4 (msgData i)) of
             None \<Rightarrow> Inl DecodeError
           | Some params \<Rightarrow>
               (case at params 3 of
                  Some (ABigNumber n) \<Rightarrow>
                    andThen (toNumber (n sdiv factor18)) (\<lambda>votes.
                    andThen (isWithdraw e t) (\<lambda>w.
                    Inr (if w then - votes else votes)))
                | _ \<Rightarrow> Inl TypeError)))"

definition getProposalByBox :: "proposal list \<Rightarrow> address \<Rightarrow> proposal option" where
  "getProposalByBox proposals boxAddress =
     find (\<lambda>prop. yesBoxAddress prop = boxAddress \<or> noBoxAddress prop = boxAddress) proposals"

text \<open>
  \<^verbatim>\<open>if (isWithdraw(tx)) { return bufferToHex(ripemd160(tx.inputs[0].script)); }\<close>

  \<^verbatim>\<open>return tx.outputs.find(o => o.address !== voter && o.color === 4).address;\<close>

  \<^verbatim>\<open>find\<close> returns the first match, and \<^verbatim>\<open>undefined\<close> when there is none, whose
  \<^verbatim>\<open>address\<close> cannot be read.
\<close>

definition getBoxAddress :: "env \<Rightarrow> tx \<Rightarrow> address \<Rightarrow> error + address" where
  "getBoxAddress e t voter =
     andThen (isWithdraw e t) (\<lambda>w.
       if w then
         (case inputs t of
            [] \<Rightarrow> Inl TypeError
          | i # _ \<Rightarrow> Inr (bufferToHex (ripemd160 e (script i))))
       else
         (case find (\<lambda>out. address out \<noteq> voter \<and> color out = 4) (outputs t) of
            None \<Rightarrow> Inl TypeError
          | Some out \<Rightarrow> Inr (address out)))"

text \<open>
  \<^verbatim>\<open>const boxAddress = getBoxAddress(tx, voter);\<close>

  \<^verbatim>\<open>const { proposalId } = getProposalByBox(proposals, boxAddress) || {};\<close>

  \<^verbatim>\<open>if (proposalId) { return proposalId; }\<close>

  \<^verbatim>\<open>console.warn('Unknown proposal vote', JSON.stringify({ boxAddress }));\<close>

  The result is the proposal's id, or \<^verbatim>\<open>undefined\<close> after one warning. The second
  component of the model's result is what the call wrote with \<^verbatim>\<open>console.warn\<close>. An
  empty id is falsy and is treated as no id.
\<close>

definition getProposalId ::
  "env \<Rightarrow> tx \<Rightarrow> proposal list \<Rightarrow> address \<Rightarrow> error + (string option \<times> diagnostic list)" where
  "getProposalId e t proposals voter =
     andThen (getBoxAddress e t voter) (\<lambda>boxAddress.
       (case getProposalByBox proposals boxAddress of
          None \<Rightarrow> Inr (None, [UnknownProposalVote boxAddress])
        | Some prop \<Rightarrow>
            if proposalId prop \<noteq> [] then Inr (Some (proposalId prop), [])
            else Inr (None, [UnknownProposalVote boxAddress])))"

subsection \<open>Aggregation\<close>

text \<open>
  The body of \<^verbatim>\<open>txs.forEach\<close>, on one parsed transaction:

  \<^verbatim>\<open>if (isVote(tx) || isWithdraw(tx)) {\<close>

  \<^verbatim>\<open>  const voter = tx.inputs[1].signer; voters.add(voter);\<close>

  \<^verbatim>\<open>  const proposalId = getProposalId(tx, proposals, voter);\<close>

  \<^verbatim>\<open>  if (!proposalId) { return; }\<close>

  \<^verbatim>\<open>  if (!distr[proposalId]) { distr[proposalId] = {}; }\<close>

  \<^verbatim>\<open>  const proposalVotes = distr[proposalId];\<close>

  \<^verbatim>\<open>  let votes = getVotes(tx);\<close>

  \<^verbatim>\<open>  const prevVote = proposalVotes[voter] || 0;\<close>

  \<^verbatim>\<open>  if (prevVote < 0 && isWithdraw(tx)) { votes = -votes; }\<close>

  \<^verbatim>\<open>  proposalVotes[voter] = (proposalVotes[voter] || 0) + votes; }\<close>

  An exception leaves the callback, \<^verbatim>\<open>forEach\<close> and the run; what the state was at
  that moment is not observed. The sum is a sum of integers and the two objects are
  association lists: they are the script's sum of numbers and its objects on the runs
  that \<open>plainRun\<close>, defined below, describes.
\<close>

definition processTx :: "env \<Rightarrow> proposal list \<Rightarrow> state \<Rightarrow> tx \<Rightarrow> error + state" where
  "processTx e proposals st t =
     andThen (isVote e t) (\<lambda>v.
     andThen (if v then Inr True else isWithdraw e t) (\<lambda>relevant.
       if \<not> relevant then Inr st
       else
         (case at (inputs t) 1 of
            None \<Rightarrow> Inl TypeError
          | Some balanceCard \<Rightarrow>
              let voter = signer balanceCard;
                  st1 = st\<lparr>voters := insert voter (voters st)\<rparr>
              in
              andThen (getProposalId e t proposals voter) (\<lambda>(resolved, warned).
                let st2 = st1\<lparr>warnings := warnings st1 @ warned\<rparr> in
                (case resolved of
                   None \<Rightarrow> Inr st2
                 | Some pid \<Rightarrow>
                     let proposalVotes =
                           (case map_of (distr st2) pid of
                              None \<Rightarrow> []
                            | Some pv \<Rightarrow> pv)
                     in
                     andThen (getVotes e t) (\<lambda>votes0.
                     andThen (isWithdraw e t) (\<lambda>w.
                       let prevVote = orZero proposalVotes voter;
                           votes = (if prevVote < 0 \<and> w then - votes0 else votes0)
                       in Inr (st2\<lparr>distr :=
                                 AList.update pid
                                   (AList.update voter (orZero proposalVotes voter + votes)
                                      proposalVotes)
                                   (distr st2)\<rparr>))))))))"

fun forEach :: "env \<Rightarrow> proposal list \<Rightarrow> state \<Rightarrow> tx list \<Rightarrow> error + state" where
  "forEach e proposals st [] = Inr st"
| "forEach e proposals st (t # ts) =
     (case processTx e proposals st t of
        Inl err \<Rightarrow> Inl err
      | Inr st' \<Rightarrow> forEach e proposals st' ts)"

definition initial :: state where
  "initial = \<lparr>distr = [], voters = {}, warnings = []\<rparr>"

subsection \<open>Summary\<close>

text \<open>
  \<^verbatim>\<open>const countByNumberOfVotes = (arr) => arr.reduce((r, v) => { r[v[1]] = (r[v[1]] || 0) + 1; return r; }, {});\<close>

  For every key of \<^verbatim>\<open>Object.keys(distr).sort()\<close>:

  \<^verbatim>\<open>let countByVote = countByNumberOfVotes(Object.entries(distr[proposalId]));\<close>

  \<^verbatim>\<open>const totalVotesForProposal = Object.values(countByVote).reduce((r, v) => r += v, 0);\<close>

  \<^verbatim>\<open>countByVote[0] = (countByVote[0] || 0) + voters.size - totalVotesForProposal;\<close>

  \<^verbatim>\<open>return { proposalId, distr: countByVote };\<close>

  \<^verbatim>\<open>sort()\<close> without a comparison orders strings by their code units, which for the
  characters of \<^typ>\<open>string\<close> is the lexicographic order of the lists of characters.
\<close>

definition countByNumberOfVotes :: "(address \<times> int) list \<Rightarrow> (int \<times> int) list" where
  "countByNumberOfVotes arr =
     foldl (\<lambda>r v. AList.update (snd v) (orZero r (snd v) + 1) r) [] arr"

definition countsFor :: "state \<Rightarrow> string \<Rightarrow> (int \<times> int) list" where
  "countsFor st pid =
     (let entries = (case map_of (distr st) pid of None \<Rightarrow> [] | Some pv \<Rightarrow> pv);
          countByVote = countByNumberOfVotes entries;
          totalVotesForProposal = foldl (\<lambda>r v. r + v) 0 (map snd countByVote)
      in AList.update 0
           (orZero countByVote 0 + int (card (voters st)) - totalVotesForProposal)
           countByVote)"

definition grouped :: "state \<Rightarrow> (string \<times> (int \<times> int) list) list" where
  "grouped st = map (\<lambda>pid. (pid, countsFor st pid)) (sort (map fst (distr st)))"

text \<open>
  The lines of the file, which are written joined by newlines:

  \<^verbatim>\<open>['Proposal,Votes,Count'].concat(...groupedDistr.map((v) =>\<close>

  \<^verbatim>\<open>  Object.entries(v.distr).sort((a, b) => a[0] - b[0])\<close>

  \<^verbatim>\<open>    .map(([votes, count]) => `${v.proposalId},${votes},${count}`)))\<close>
\<close>

definition csvRow :: "string \<Rightarrow> int \<times> int \<Rightarrow> string" where
  "csvRow pid vc = pid @ '','' @ showInt (fst vc) @ '','' @ showInt (snd vc)"

definition csvLines :: "(string \<times> (int \<times> int) list) list \<Rightarrow> string list" where
  "csvLines g =
     ''Proposal,Votes,Count'' #
     concat (map (\<lambda>v. map (csvRow (fst v)) (sort_key fst (snd v))) g)"

text \<open>The whole run, from the parsed transactions to what is written.\<close>

definition main :: "env \<Rightarrow> proposal list \<Rightarrow> tx list \<Rightarrow> error + report" where
  "main e proposals txs =
     andThen (forEach e proposals initial txs) (\<lambda>st.
       Inr \<lparr>final = st, groupedDistr = grouped st,
            distributionByVoteCSV = csvLines (grouped st)\<rparr>)"

subsection \<open>Reading the ledger\<close>

text \<open>\<^verbatim>\<open>distr[pid]\<close> as a list of entries, empty when the proposal has none.\<close>

definition entriesOf :: "state \<Rightarrow> string \<Rightarrow> (address \<times> int) list" where
  "entriesOf st pid = (case map_of (distr st) pid of None \<Rightarrow> [] | Some pv \<Rightarrow> pv)"

text \<open>The voter's running total for a proposal, \<open>0\<close> when there is none.\<close>

definition netVotes :: "state \<Rightarrow> string \<Rightarrow> address \<Rightarrow> int" where
  "netVotes st pid voter = orZero (entriesOf st pid) voter"

subsection \<open>Sample data for the closed examples\<close>

text \<open>
  The examples need an environment. Its decoder stands for the library's on a layout of
  four static words: a payload shorter than four words of 32 bytes is refused, as the
  library refuses it for any four parameters, and each word is read as a big-endian
  number. Its digest keeps the first 20 bytes. The general theorems hold for every
  environment.
\<close>

definition beInt :: "byte list \<Rightarrow> int" where
  "beInt bs = foldl (\<lambda>a b. a * 256 + uint b) 0 bs"

definition sampleDecode :: "byte list \<Rightarrow> abi_value list option" where
  "sampleDecode bs =
     (if length bs < 128 then None
      else Some (map (\<lambda>k. ABigNumber (beInt (take 32 (drop (32 * k) bs)))) [0, 1, 2, 3]))"

definition sampleEnv :: env where
  "sampleEnv =
     \<lparr>voteFuncSig = ''01020304'', withdrawFuncSig = ''0a0b0c0d'',
      castBallotDecode = sampleDecode, ripemd160 = take 20\<rparr>"

definition sampleProposals :: "proposal list" where
  "sampleProposals =
     [\<lparr>title = ''First'', proposalId = ''P1'', boothAddress = ''0x10'',
       yesBoxAddress = ''0xa1'', noBoxAddress = ''0xb1''\<rparr>,
      \<lparr>title = ''Second'', proposalId = ''P2'', boothAddress = ''0x20'',
       yesBoxAddress = ''0xa2'', noBoxAddress = ''0xb2''\<rparr>]"

text \<open>Three static words of zeros, then the amount in the low bytes of the fourth.\<close>

definition sampleParams :: "byte list \<Rightarrow> byte list" where
  "sampleParams amount = replicate (128 - length amount) 0 @ amount"

definition tokens3 :: "byte list" where
  "tokens3 = [0x29, 0xA2, 0x24, 0x1A, 0xF6, 0x2C, 0x00, 0x00]"

definition tokens5 :: "byte list" where
  "tokens5 = [0x45, 0x63, 0x91, 0x82, 0x44, 0xF4, 0x00, 0x00]"

text \<open>A \<^verbatim>\<open>castBallot\<close> call of \<open>voter\<close> that pays into the box \<open>box\<close>.\<close>

definition sampleVote :: "address \<Rightarrow> address \<Rightarrow> byte list \<Rightarrow> tx" where
  "sampleVote voter box params =
     \<lparr>type = 13,
      inputs = [\<lparr>msgData = [0x01, 0x02, 0x03, 0x04] @ params, script = [],
                 signer = ''0xfee''\<rparr>,
                \<lparr>msgData = [], script = [], signer = voter\<rparr>],
      outputs = [\<lparr>address = voter, color = 4, outValue = 1\<rparr>,
                 \<lparr>address = box, color = 4, outValue = 1\<rparr>]\<rparr>"

text \<open>A \<^verbatim>\<open>withdraw\<close> call of \<open>voter\<close> that spends the box with the script \<open>boxScript\<close>.\<close>

definition sampleWithdraw :: "address \<Rightarrow> byte list \<Rightarrow> byte list \<Rightarrow> tx" where
  "sampleWithdraw voter boxScript params =
     \<lparr>type = 13,
      inputs = [\<lparr>msgData = [0x0a, 0x0b, 0x0c, 0x0d] @ params, script = boxScript,
                 signer = ''0xfee''\<rparr>,
                \<lparr>msgData = [], script = [], signer = voter\<rparr>],
      outputs = [\<lparr>address = voter, color = 4, outValue = 1\<rparr>]\<rparr>"

text \<open>A ledger in which the voter holds \<open>-3\<close> on the first proposal.\<close>

definition heldNo3 :: state where
  "heldNo3 = \<lparr>distr = [(''P1'', [(''0xv1'', - 3)])], voters = {''0xv1''}, warnings = []\<rparr>"

subsection \<open>Auxiliary notions of the proofs\<close>

text \<open>The counting loop, from any accumulator.\<close>

definition tally :: "(int \<times> int) list \<Rightarrow> (address \<times> int) list \<Rightarrow> (int \<times> int) list" where
  "tally acc arr = foldl (\<lambda>r v. AList.update (snd v) (orZero r (snd v) + 1) r) acc arr"

text \<open>
  What the aggregation keeps true: the set of voters is finite, no proposal and no voter
  occurs twice as a key, and whoever holds an entry is a recorded voter.
\<close>

definition ledgerOk :: "state \<Rightarrow> bool" where
  "ledgerOk st \<longleftrightarrow>
     finite (voters st) \<and> distinct (map fst (distr st)) \<and>
     (\<forall>p \<in> set (distr st). distinct (map fst (snd p)) \<and> fst ` set (snd p) \<subseteq> voters st)"

text \<open>The rows of the file after the header, as triples, in the order they are written.\<close>

definition rowsOf :: "(string \<times> (int \<times> int) list) list \<Rightarrow> (string \<times> int \<times> int) list" where
  "rowsOf g = concat (map (\<lambda>q. map (\<lambda>vc. (fst q, fst vc, snd vc)) (sort_key fst (snd q))) g)"

text \<open>A run over six transactions of three voters; the fourth names an unknown box.\<close>

definition sampleTxs :: "tx list" where
  "sampleTxs =
     [sampleVote ''0xv2'' ''0xb2'' (sampleParams tokens3),
      sampleVote ''0xv1'' ''0xa1'' (sampleParams tokens5),
      sampleWithdraw ''0xv1'' [0xa1] (sampleParams tokens3),
      sampleVote ''0xv3'' ''0xcc'' (sampleParams tokens3),
      sampleVote ''0xv2'' ''0xa1'' (sampleParams tokens3),
      sampleWithdraw ''0xv2'' [0xa1] (sampleParams tokens3)]"

definition sampleReport :: report where
  "sampleReport =
     \<lparr>final = \<lparr>distr = [(''P2'', [(''0xv2'', 3)]), (''P1'', [(''0xv1'', 2), (''0xv2'', 0)])],
                voters = {''0xv3'', ''0xv2'', ''0xv1''},
                warnings = [UnknownProposalVote ''0xcc'']\<rparr>,
      groupedDistr = [(''P1'', [(2, 1), (0, 2)]), (''P2'', [(3, 1), (0, 2)])],
      distributionByVoteCSV =
        [''Proposal,Votes,Count'', ''P1,0,2'', ''P1,2,1'', ''P2,0,2'', ''P2,3,1'']\<rparr>"

text \<open>
  The same three transactions of one voter in two orders, and the ledger in which that
  voter holds \<open>n\<close> on the first proposal.
\<close>

definition withdrawFirst :: "tx list" where
  "withdrawFirst =
     [sampleWithdraw ''0xv1'' [0xa1] (sampleParams tokens3),
      sampleWithdraw ''0xv1'' [0xa1] (sampleParams tokens3),
      sampleVote ''0xv1'' ''0xa1'' (sampleParams tokens5)]"

definition voteFirst :: "tx list" where
  "voteFirst =
     [sampleVote ''0xv1'' ''0xa1'' (sampleParams tokens5),
      sampleWithdraw ''0xv1'' [0xa1] (sampleParams tokens3),
      sampleWithdraw ''0xv1'' [0xa1] (sampleParams tokens3)]"

definition ledgerOf :: "int \<Rightarrow> state" where
  "ledgerOf n = \<lparr>distr = [(''P1'', [(''0xv1'', n)])], voters = {''0xv1''}, warnings = []\<rparr>"

subsection \<open>Runs on which the embedding is the script\<close>

text \<open>
  An association list is the script's plain object as long as no key is the name of a
  property that every object inherits: for such a key \<^verbatim>\<open>distr[proposalId]\<close> and
  \<^verbatim>\<open>proposalVotes[voter]\<close> read the inherited value, and with the proposal id
  \<^verbatim>\<open>__proto__\<close> the totals are written to the prototype of all objects. An
  \<^typ>\<open>int\<close> is the script's number as long as it is within \<open>2^53\<close> of \<open>0\<close>, where every
  integer is a number and a sum that stays in the range is exact; past it the script's
  addition rounds. \<open>plainRun\<close> holds of a run in which every ledger from the first to
  the last is of this kind, so that what \<open>processTx\<close> computes along the run is what
  the script computes.
\<close>

definition inheritedNames :: "string list" where
  "inheritedNames =
     [''__proto__'', ''constructor'', ''hasOwnProperty'', ''isPrototypeOf'',
      ''propertyIsEnumerable'', ''toLocaleString'', ''toString'', ''valueOf'',
      ''__defineGetter__'', ''__defineSetter__'', ''__lookupGetter__'',
      ''__lookupSetter__'']"

definition plainEntry :: "address \<times> int \<Rightarrow> bool" where
  "plainEntry p \<longleftrightarrow> fst p \<notin> set inheritedNames \<and> \<bar>snd p\<bar> \<le> 2 ^ 53"

definition plainLedger :: "state \<Rightarrow> bool" where
  "plainLedger st \<longleftrightarrow>
     list_all (\<lambda>p. fst p \<notin> set inheritedNames \<and> list_all plainEntry (snd p)) (distr st)"

fun plainRun :: "env \<Rightarrow> proposal list \<Rightarrow> state \<Rightarrow> tx list \<Rightarrow> bool" where
  "plainRun e proposals st [] = plainLedger st"
| "plainRun e proposals st (t # ts) =
     (plainLedger st \<and>
      (case processTx e proposals st t of
         Inl err \<Rightarrow> False
       | Inr st' \<Rightarrow> plainRun e proposals st' ts))"

section \<open>Basic facts\<close>

lemma andThen_Inr [simp]: "andThen (Inr x) f = f x"
  by (simp add: andThen_def)

lemma andThen_Inl [simp]: "andThen (Inl err) f = Inl err"
  by (simp add: andThen_def)

lemma at_Cons_Cons_1 [simp]: "at (a # b # rest) (Suc 0) = Some b"
  by (simp add: at_def)

lemma orZero_update_same [simp]: "orZero (AList.update k v obj) k = v"
  by (simp add: orZero_def update_conv')

lemma orZero_update_other [simp]: "k' \<noteq> k \<Longrightarrow> orZero (AList.update k v obj) k' = orZero obj k'"
  by (simp add: orZero_def update_conv')

lemma entriesOf_update_same [simp]:
  "entriesOf (st\<lparr>distr := AList.update pid pv (distr st)\<rparr>) pid = pv"
  by (simp add: entriesOf_def update_conv')

lemma entriesOf_update_other [simp]:
  "pid' \<noteq> pid \<Longrightarrow> entriesOf (st\<lparr>distr := AList.update pid pv (distr st)\<rparr>) pid' = entriesOf st pid'"
  by (simp add: entriesOf_def update_conv')

lemma entriesOf_voters_upd [simp]: "entriesOf (st\<lparr>voters := V\<rparr>) pid = entriesOf st pid"
  by (simp add: entriesOf_def)

lemma entriesOf_warnings_upd [simp]: "entriesOf (st\<lparr>warnings := W\<rparr>) pid = entriesOf st pid"
  by (simp add: entriesOf_def)

text \<open>The step on a relevant transaction with a balance card.\<close>

lemma processTx_relevant:
  assumes "isVote e t = Inr v" and "isWithdraw e t = Inr w" and "v \<or> w"
    and "inputs t = i0 # bc # rest"
  shows "processTx e proposals st t =
     andThen (getProposalId e t proposals (signer bc)) (\<lambda>(resolved, warned).
       let st2 = st\<lparr>voters := insert (signer bc) (voters st),
                    warnings := warnings st @ warned\<rparr> in
       (case resolved of
          None \<Rightarrow> Inr st2
        | Some pid \<Rightarrow>
            andThen (getVotes e t) (\<lambda>votes0.
              let prevVote = netVotes st pid (signer bc);
                  votes = (if prevVote < 0 \<and> w then - votes0 else votes0)
              in Inr (st2\<lparr>distr :=
                        AList.update pid
                          (AList.update (signer bc) (prevVote + votes) (entriesOf st pid))
                          (distr st)\<rparr>))))"
  using assms
  by (cases "getProposalId e t proposals (signer bc)")
     (auto simp: processTx_def Let_def netVotes_def entriesOf_def split: option.splits prod.splits)

lemma getVotes_decoded:
  assumes "inputs t = i0 # rest"
    and "castBallotDecode e (drop 4 (msgData i0)) = Some params"
    and "at params 3 = Some (ABigNumber n)"
    and "\<bar>n sdiv factor18\<bar> < 2 ^ 53"
    and "isWithdraw e t = Inr w"
  shows "getVotes e t = Inr (if w then - (n sdiv factor18) else n sdiv factor18)"
  using assms by (simp add: getVotes_def toNumber_def)

section \<open>Counting by number of votes\<close>

lemma foldl_add_sum_list: "foldl (\<lambda>r v. r + v) a xs = a + sum_list (xs :: int list)"
  by (induction xs arbitrary: a) simp_all

lemma orZero_Nil [simp]: "orZero [] k = 0"
  by (simp add: orZero_def)

lemma orZero_member:
  "distinct (map fst obj) \<Longrightarrow> (k, v) \<in> set obj \<Longrightarrow> orZero obj k = v"
  by (simp add: orZero_def)

lemma orZero_absent: "k \<notin> fst ` set obj \<Longrightarrow> orZero obj k = 0"
proof -
  assume "k \<notin> fst ` set obj"
  then have "map_of obj k = None" by (simp add: map_of_eq_None_iff)
  then show ?thesis by (simp add: orZero_def)
qed

lemma set_update_cases:
  "p \<in> set (AList.update k v obj) \<Longrightarrow> p = (k, v) \<or> p \<in> set obj"
  by (induction obj) (auto split: if_splits)

lemma sum_list_update:
  "distinct (map fst obj) \<Longrightarrow>
   sum_list (map snd (AList.update k v obj)) = sum_list (map snd obj) - orZero obj k + v"
proof (induction obj)
  case Nil
  then show ?case by simp
next
  case (Cons p obj)
  show ?case
  proof (cases "fst p = k")
    case True
    then show ?thesis by (cases p) (simp add: orZero_def)
  next
    case False
    with Cons show ?thesis by (cases p) (simp add: orZero_def)
  qed
qed

lemma distinct_tally: "distinct (map fst acc) \<Longrightarrow> distinct (map fst (tally acc arr))"
  unfolding tally_def by (induction arr arbitrary: acc) (simp_all add: distinct_update)

lemma orZero_tally:
  "orZero (tally acc arr) k = orZero acc k + int (length (filter (\<lambda>v. snd v = k) arr))"
  unfolding tally_def
proof (induction arr arbitrary: acc)
  case Nil
  then show ?case by simp
next
  case (Cons a arr)
  show ?case
    by (cases "snd a = k") (simp_all add: Cons.IH)
qed

lemma sum_tally:
  "distinct (map fst acc) \<Longrightarrow>
   sum_list (map snd (tally acc arr)) = sum_list (map snd acc) + int (length arr)"
  unfolding tally_def
proof (induction arr arbitrary: acc)
  case Nil
  then show ?case by simp
next
  case (Cons a arr)
  then show ?case by (simp add: distinct_update sum_list_update)
qed

lemma countByNumberOfVotes_tally: "countByNumberOfVotes arr = tally [] arr"
  by (simp add: countByNumberOfVotes_def tally_def)

lemma distinct_countByNumberOfVotes: "distinct (map fst (countByNumberOfVotes arr))"
  by (simp add: countByNumberOfVotes_tally distinct_tally)

lemma orZero_countByNumberOfVotes:
  "orZero (countByNumberOfVotes arr) k = int (length (filter (\<lambda>v. snd v = k) arr))"
  by (simp add: countByNumberOfVotes_tally orZero_tally)

lemma sum_countByNumberOfVotes:
  "sum_list (map snd (countByNumberOfVotes arr)) = int (length arr)"
  by (simp add: countByNumberOfVotes_tally sum_tally)

lemma countsFor_eq:
  "countsFor st pid =
     AList.update 0
       (int (length (filter (\<lambda>v. snd v = 0) (entriesOf st pid))) + int (card (voters st))
          - int (length (entriesOf st pid)))
       (countByNumberOfVotes (entriesOf st pid))"
  by (simp add: countsFor_def entriesOf_def Let_def foldl_add_sum_list
      sum_countByNumberOfVotes orZero_countByNumberOfVotes)

lemma distinct_countsFor: "distinct (map fst (countsFor st pid))"
  by (simp add: countsFor_eq distinct_update distinct_countByNumberOfVotes)

lemma sum_countsFor: "sum_list (map snd (countsFor st pid)) = int (card (voters st))"
  by (simp add: countsFor_eq sum_list_update distinct_countByNumberOfVotes
      sum_countByNumberOfVotes orZero_countByNumberOfVotes)

lemma zero_countsFor:
  "map_of (countsFor st pid) 0 =
     Some (int (length (filter (\<lambda>v. snd v = 0) (entriesOf st pid))) + int (card (voters st))
            - int (length (entriesOf st pid)))"
  by (simp add: countsFor_eq update_conv')

lemma countByNumberOfVotes_nonneg:
  assumes "(k, c) \<in> set (countByNumberOfVotes arr)"
  shows "0 \<le> c"
proof -
  have "orZero (countByNumberOfVotes arr) k = c"
    using assms by (rule orZero_member [OF distinct_countByNumberOfVotes])
  then show ?thesis by (simp add: orZero_countByNumberOfVotes)
qed

lemma countsFor_nonneg:
  assumes "length (entriesOf st pid) \<le> card (voters st)" and "(k, c) \<in> set (countsFor st pid)"
  shows "0 \<le> c"
proof -
  from assms(2) consider
    "c = int (length (filter (\<lambda>v. snd v = 0) (entriesOf st pid))) + int (card (voters st))
          - int (length (entriesOf st pid))"
    | "(k, c) \<in> set (countByNumberOfVotes (entriesOf st pid))"
    unfolding countsFor_eq by (auto dest: set_update_cases)
  then show ?thesis
  proof cases
    case 1
    with assms(1) show ?thesis by simp
  next
    case 2
    then show ?thesis by (rule countByNumberOfVotes_nonneg)
  qed
qed

section \<open>What the aggregation keeps true\<close>

lemma processTx_shape:
  assumes "processTx e proposals st t = Inr st'"
  shows "st' = st \<or>
    (\<exists>voter ws. st' = st\<lparr>voters := insert voter (voters st), warnings := warnings st @ ws\<rparr>) \<or>
    (\<exists>voter ws pid x.
       st' = st\<lparr>voters := insert voter (voters st), warnings := warnings st @ ws,
                 distr := AList.update pid (AList.update voter x (entriesOf st pid)) (distr st)\<rparr>)"
proof -
  have fold_entries: "(case map_of (distr st) pid of None \<Rightarrow> [] | Some pv \<Rightarrow> pv) = entriesOf st pid"
    for pid by (simp add: entriesOf_def)
  from assms show ?thesis
    unfolding processTx_def andThen_def Let_def
    by (fastforce simp: fold_entries split: sum.splits if_splits option.splits prod.splits)
qed

lemma entriesOf_ok:
  assumes "ledgerOk st"
  shows "distinct (map fst (entriesOf st pid))" and "fst ` set (entriesOf st pid) \<subseteq> voters st"
proof -
  show "distinct (map fst (entriesOf st pid))"
  proof (cases "map_of (distr st) pid")
    case None
    then show ?thesis by (simp add: entriesOf_def)
  next
    case (Some pv)
    then have "(pid, pv) \<in> set (distr st)" by (rule map_of_SomeD)
    with assms Some show ?thesis by (auto simp: ledgerOk_def entriesOf_def)
  qed
  show "fst ` set (entriesOf st pid) \<subseteq> voters st"
  proof (cases "map_of (distr st) pid")
    case None
    then show ?thesis by (simp add: entriesOf_def)
  next
    case (Some pv)
    then have "(pid, pv) \<in> set (distr st)" by (rule map_of_SomeD)
    with assms Some show ?thesis by (fastforce simp: ledgerOk_def entriesOf_def)
  qed
qed

lemma ledgerOk_voter:
  "ledgerOk st \<Longrightarrow> ledgerOk (st\<lparr>voters := insert voter (voters st), warnings := ws\<rparr>)"
  by (fastforce simp: ledgerOk_def)

lemma ledgerOk_update:
  assumes "ledgerOk st"
  shows "ledgerOk (st\<lparr>voters := insert voter (voters st), warnings := ws,
           distr := AList.update pid (AList.update voter x (entriesOf st pid)) (distr st)\<rparr>)"
proof -
  let ?pv = "AList.update voter x (entriesOf st pid)"
  have d: "distinct (map fst ?pv)"
    using entriesOf_ok(1) [OF assms] by (rule distinct_update)
  have s: "fst ` set ?pv \<subseteq> insert voter (voters st)"
    using entriesOf_ok(2) [OF assms, of pid] by (auto simp: dom_update)
  have "distinct (map fst q) \<and> fst ` set q \<subseteq> insert voter (voters st)"
    if "(k, q) \<in> set (AList.update pid ?pv (distr st))" for k q
  proof -
    from that have "(k, q) = (pid, ?pv) \<or> (k, q) \<in> set (distr st)"
      by (rule set_update_cases)
    then show ?thesis
    proof
      assume "(k, q) = (pid, ?pv)"
      with d s show ?thesis by simp
    next
      assume "(k, q) \<in> set (distr st)"
      with assms show ?thesis by (fastforce simp: ledgerOk_def)
    qed
  qed
  moreover have "distinct (map fst (AList.update pid ?pv (distr st)))"
    using assms by (simp add: ledgerOk_def distinct_update)
  moreover have "finite (insert voter (voters st))"
    using assms by (simp add: ledgerOk_def)
  ultimately show ?thesis by (fastforce simp: ledgerOk_def)
qed

lemma ledgerOk_processTx:
  assumes "processTx e proposals st t = Inr st'" and "ledgerOk st"
  shows "ledgerOk st'"
  using processTx_shape [OF assms(1)] assms(2)
  by (auto intro: ledgerOk_voter ledgerOk_update)

lemma ledgerOk_forEach:
  "forEach e proposals st txs = Inr st' \<Longrightarrow> ledgerOk st \<Longrightarrow> ledgerOk st'"
proof (induction txs arbitrary: st)
  case Nil
  then show ?case by simp
next
  case (Cons t txs)
  then show ?case
    by (auto split: sum.splits dest: ledgerOk_processTx)
qed

lemma ledgerOk_initial: "ledgerOk initial"
  by (simp add: ledgerOk_def initial_def)

lemma main_Inr:
  assumes "main e proposals txs = Inr r"
  shows "forEach e proposals initial txs = Inr (final r)"
    and "groupedDistr r = grouped (final r)"
    and "distributionByVoteCSV r = csvLines (grouped (final r))"
    and "ledgerOk (final r)"
proof -
  from assms obtain st where st: "forEach e proposals initial txs = Inr st"
    and r: "r = \<lparr>final = st, groupedDistr = grouped st,
                 distributionByVoteCSV = csvLines (grouped st)\<rparr>"
    by (cases "forEach e proposals initial txs") (auto simp: main_def)
  from st r show "forEach e proposals initial txs = Inr (final r)" by simp
  from r show "groupedDistr r = grouped (final r)" by simp
  from r show "distributionByVoteCSV r = csvLines (grouped (final r))" by simp
  from st r show "ledgerOk (final r)"
    using ledgerOk_forEach [OF st ledgerOk_initial] by simp
qed

lemma participants_le_voters:
  assumes "ledgerOk st"
  shows "length (entriesOf st pid) \<le> card (voters st)"
proof -
  have "length (entriesOf st pid) = card (fst ` set (entriesOf st pid))"
    using entriesOf_ok(1) [OF assms, of pid]
      distinct_card [of "map fst (entriesOf st pid)"] by simp
  also have "\<dots> \<le> card (voters st)"
    using assms entriesOf_ok(2) [OF assms, of pid] by (auto simp: ledgerOk_def intro: card_mono)
  finally show ?thesis .
qed

lemma grouped_member:
  "(pid, buckets) \<in> set (grouped st) \<Longrightarrow> buckets = countsFor st pid \<and> pid \<in> fst ` set (distr st)"
  by (auto simp: grouped_def)

section \<open>The rows of the file\<close>

lemma distinct_map_sort_key:
  "distinct (map f (sort_key f xs)) = distinct (map f xs)"
  by (induction xs) (simp_all add: distinct_insort_key)

lemma strict_sort_key:
  "distinct (map f xs) \<Longrightarrow> sorted_wrt (\<lambda>x y. f x < f y) (sort_key f xs)"
proof -
  assume "distinct (map f xs)"
  then have "sorted_wrt (<) (map f (sort_key f xs))"
    by (simp add: strict_sorted_iff distinct_map_sort_key)
  then show ?thesis by (simp add: sorted_wrt_map)
qed

lemma csvLines_rowsOf:
  "csvLines g =
     ''Proposal,Votes,Count'' #
     map (\<lambda>(pid, votes, cnt). pid @ '','' @ showInt votes @ '','' @ showInt cnt) (rowsOf g)"
  by (simp add: csvLines_def rowsOf_def map_concat csvRow_def [abs_def] comp_def case_prod_beta)

lemma set_rowsOf:
  "set (rowsOf g) =
     {(pid, votes, cnt). \<exists>buckets. (pid, buckets) \<in> set g \<and> (votes, cnt) \<in> set buckets}"
  by (force simp: rowsOf_def)

lemma sorted_rowsOf:
  assumes "sorted_wrt (<) (map fst g)" and "\<forall>q \<in> set g. distinct (map fst (snd q))"
  shows "sorted_wrt (\<lambda>a b. fst a < fst b \<or> (fst a = fst b \<and> fst (snd a) < fst (snd b))) (rowsOf g)"
  using assms
proof (induction g)
  case Nil
  then show ?case by (simp add: rowsOf_def)
next
  case (Cons q g)
  have tl: "rowsOf (q # g) =
              map (\<lambda>vc. (fst q, fst vc, snd vc)) (sort_key fst (snd q)) @ rowsOf g"
    by (simp add: rowsOf_def)
  have 1: "sorted_wrt (\<lambda>a b. fst a < fst b \<or> (fst a = fst b \<and> fst (snd a) < fst (snd b)))
             (map (\<lambda>vc. (fst q, fst vc, snd vc)) (sort_key fst (snd q)))"
    using Cons.prems(2) strict_sort_key [of fst "snd q"] by (simp add: sorted_wrt_map)
  have 2: "sorted_wrt (\<lambda>a b. fst a < fst b \<or> (fst a = fst b \<and> fst (snd a) < fst (snd b))) (rowsOf g)"
    using Cons by simp
  have 3: "fst q < p'" if "(p', v', c') \<in> set (rowsOf g)" for p' v' c'
    using that Cons.prems(1) by (force simp: set_rowsOf)
  show ?case
    unfolding tl sorted_wrt_append using 1 2 3 by auto
qed

lemma grouped_keys: "map fst (grouped st) = sort (map fst (distr st))"
  by (simp add: grouped_def comp_def)

lemma grouped_buckets_distinct: "\<forall>q \<in> set (grouped st). distinct (map fst (snd q))"
  by (auto simp: grouped_def distinct_countsFor)


section \<open>Facts about single calls\<close>

lemma forEach_append:
  "forEach e proposals st (xs @ ys) =
     andThen (forEach e proposals st xs) (\<lambda>st'. forEach e proposals st' ys)"
  by (induction xs arbitrary: st) (simp_all split: sum.splits)

lemma getProposalId_unresolved:
  assumes "getBoxAddress e t voter = Inr box" and "getProposalByBox proposals box = None"
  shows "getProposalId e t proposals voter = Inr (None, [UnknownProposalVote box])"
  using assms by (simp add: getProposalId_def)

lemma getVotes_undecodable:
  assumes "inputs t = i0 # rest" and "castBallotDecode e (drop 4 (msgData i0)) = None"
  shows "getVotes e t = Inl DecodeError"
  using assms by (simp add: getVotes_def)

lemma abs_sdiv_nonneg:
  fixes n :: int
  assumes "0 < d"
  shows "\<bar>n sdiv d\<bar> = \<bar>n\<bar> div d"
proof -
  have "0 \<le> \<bar>n\<bar> div d"
    using assms by (simp add: pos_imp_zdiv_nonneg_iff)
  show ?thesis
  proof (cases "n = 0")
    case True
    then show ?thesis by simp
  next
    case False
    with assms \<open>0 \<le> \<bar>n\<bar> div d\<close> show ?thesis
      by (simp add: signed_divide_int_def abs_mult)
  qed
qed

lemma sdiv_truncates:
  fixes n :: int
  assumes "0 < d"
  shows "n sdiv d = sgn n * (\<bar>n\<bar> div d)"
  using assms by (simp add: signed_divide_int_def)

section \<open>Plain runs\<close>

lemma plainRun_start: "plainRun e proposals st txs \<Longrightarrow> plainLedger st"
  by (cases txs) simp_all

lemma plainRun_append:
  "plainRun e proposals st (xs @ ys) \<longleftrightarrow>
     plainRun e proposals st xs \<and>
     (\<exists>s. forEach e proposals st xs = Inr s \<and> plainRun e proposals s ys)"
proof (induction xs arbitrary: st)
  case Nil
  then show ?case by (auto dest: plainRun_start)
next
  case (Cons t xs)
  then show ?case by (cases "processTx e proposals st t") auto
qed

lemma plainRun_end:
  assumes "plainRun e proposals s0 xs" and "forEach e proposals s0 xs = Inr st"
  shows "plainLedger st"
  using assms plainRun_append [of e proposals s0 xs "[]"] by (auto dest: plainRun_start)

lemma list_all_update:
  assumes "P (k, v)" and "list_all P obj"
  shows "list_all P (AList.update k v obj)"
  using assms by (auto simp: list_all_iff dest: set_update_cases)

lemma plain_entriesOf:
  assumes "plainLedger st"
  shows "list_all plainEntry (entriesOf st pid)"
proof (cases "map_of (distr st) pid")
  case None
  then show ?thesis by (simp add: entriesOf_def)
next
  case (Some pv)
  then have "(pid, pv) \<in> set (distr st)" by (rule map_of_SomeD)
  with assms Some show ?thesis by (auto simp: plainLedger_def entriesOf_def list_all_iff)
qed

lemma plainLedger_update:
  assumes "plainLedger st" and "pid \<notin> set inheritedNames" and "voter \<notin> set inheritedNames"
    and "\<bar>newVote\<bar> \<le> 2 ^ 53"
  shows "plainLedger (st\<lparr>voters := V, warnings := W,
           distr := AList.update pid (AList.update voter newVote (entriesOf st pid)) (distr st)\<rparr>)"
proof -
  have "list_all plainEntry (AList.update voter newVote (entriesOf st pid))"
    using assms(3,4) plain_entriesOf [OF assms(1)]
    by (intro list_all_update) (simp_all add: plainEntry_def)
  with assms(1,2) show ?thesis
    unfolding plainLedger_def by (simp add: list_all_update)
qed

section \<open>The sample run\<close>

lemma main_sampleTxs: "main sampleEnv sampleProposals sampleTxs = Inr sampleReport"
  by code_simp

section \<open>The aggregation step\<close>

text \<open>
  Claim C1. Take a run from the empty ledger that is plain up to the ledger \<open>st\<close> it
  has reached, and a relevant transaction that resolves to a proposal whose id, like the
  voter's address, names no inherited property. Its fourth parameter decodes to \<open>n\<close>
  and its magnitude is \<open>n sdiv 10^18\<close>. With \<open>prevVote\<close> the voter's running total for
  the proposal (\<open>0\<close> when there is none), let \<open>newVote\<close> be \<open>prevVote - magnitude\<close> for a
  withdrawal when \<open>prevVote\<close> is not negative, \<open>prevVote + magnitude\<close> for a withdrawal
  when it is negative, and \<open>prevVote + magnitude\<close> for a vote. If \<open>newVote\<close> is within
  \<open>2^53\<close> of \<open>0\<close>, the step stores \<open>newVote\<close> as the voter's total, and the run extended
  by the transaction is plain. \<open>prevVote\<close> is within that range as well, so the sum the
  script computes is exact. The example of the claim follows the theorem: a voter whose
  withdrawal of \<open>3\<close> has left the total at \<open>-3\<close> withdraws \<open>3\<close> again and ends at \<open>0\<close>.
\<close>

theorem withdraw_sign_rule:
  assumes "forEach e proposals initial earlier = Inr st"
    and "plainRun e proposals initial earlier"
    and "isVote e t = Inr v" and "isWithdraw e t = Inr w" and "v \<or> w"
    and "inputs t = i0 # bc # rest"
    and "getProposalId e t proposals (signer bc) = Inr (Some pid, warned)"
    and "castBallotDecode e (drop 4 (msgData i0)) = Some params"
    and "at params 3 = Some (ABigNumber n)"
    and "magnitude = n sdiv factor18" and "\<bar>magnitude\<bar> < 2 ^ 53"
    and "pid \<notin> set inheritedNames" and "signer bc \<notin> set inheritedNames"
    and "prevVote = netVotes st pid (signer bc)"
    and "newVote =
           (if w then (if 0 \<le> prevVote then prevVote - magnitude else prevVote + magnitude)
            else prevVote + magnitude)"
    and "\<bar>newVote\<bar> \<le> 2 ^ 53"
  shows "\<exists>st'. processTx e proposals st t = Inr st' \<and>
           netVotes st' pid (signer bc) = newVote \<and>
           \<bar>prevVote\<bar> \<le> 2 ^ 53 \<and>
           plainRun e proposals initial (earlier @ [t])"
proof -
  let ?st' = "st\<lparr>voters := insert (signer bc) (voters st), warnings := warnings st @ warned,
                  distr := AList.update pid
                             (AList.update (signer bc) newVote (entriesOf st pid)) (distr st)\<rparr>"
  have gv: "getVotes e t = Inr (if w then - magnitude else magnitude)"
    using assms(6,8,9,10,11,4) getVotes_decoded [of t i0 "bc # rest" e params n w] by simp
  have step: "processTx e proposals st t = Inr ?st'"
    using assms(7,14,15)
    by (simp add: processTx_relevant [OF assms(3-6)] gv Let_def)
  have plain: "plainLedger st"
    using assms(2,1) by (rule plainRun_end)
  have prev: "\<bar>prevVote\<bar> \<le> 2 ^ 53"
  proof (cases "map_of (entriesOf st pid) (signer bc)")
    case None
    with assms(14) show ?thesis by (simp add: netVotes_def orZero_def)
  next
    case (Some x)
    then have "(signer bc, x) \<in> set (entriesOf st pid)" by (rule map_of_SomeD)
    with plain_entriesOf [OF plain, of pid] have "\<bar>x\<bar> \<le> 2 ^ 53"
      by (auto simp: list_all_iff plainEntry_def)
    with Some assms(14) show ?thesis by (simp add: netVotes_def orZero_def)
  qed
  have "plainLedger ?st'"
    using plain assms(12,13,16) by (rule plainLedger_update)
  then have "plainRun e proposals st [t]"
    using plain step by simp
  then have run: "plainRun e proposals initial (earlier @ [t])"
    using assms(1,2) by (simp add: plainRun_append)
  have "netVotes ?st' pid (signer bc) = newVote"
    by (simp add: netVotes_def entriesOf_def update_conv')
  with step prev run show ?thesis by blast
qed

theorem withdraw_sign_rule_witness:
  "forEach sampleEnv sampleProposals initial
     [sampleWithdraw ''0xv1'' [0xb1] (sampleParams tokens3)] = Inr heldNo3 \<and>
   plainRun sampleEnv sampleProposals initial
     [sampleWithdraw ''0xv1'' [0xb1] (sampleParams tokens3)] \<and>
   netVotes heldNo3 ''P1'' ''0xv1'' = - 3 \<and>
   (\<exists>st'. processTx sampleEnv sampleProposals heldNo3
            (sampleWithdraw ''0xv1'' [0xb1] (sampleParams tokens3)) = Inr st' \<and>
          netVotes st' ''P1'' ''0xv1'' = 0 \<and>
          plainRun sampleEnv sampleProposals initial
            ([sampleWithdraw ''0xv1'' [0xb1] (sampleParams tokens3)] @
             [sampleWithdraw ''0xv1'' [0xb1] (sampleParams tokens3)]))"
proof -
  let ?t = "sampleWithdraw ''0xv1'' [0xb1] (sampleParams tokens3)"
  let ?i0 = "\<lparr>msgData = [0x0a, 0x0b, 0x0c, 0x0d] @ sampleParams tokens3, script = [0xb1],
                 signer = ''0xfee''\<rparr>"
  let ?bc = "\<lparr>msgData = [], script = [], signer = ''0xv1''\<rparr>"
  have f: "forEach sampleEnv sampleProposals initial [?t] = Inr heldNo3" by code_simp
  have r: "plainRun sampleEnv sampleProposals initial [?t]" by code_simp
  have v: "isVote sampleEnv ?t = Inr False" by code_simp
  have w: "isWithdraw sampleEnv ?t = Inr True" by code_simp
  have vw: "False \<or> True" by simp
  have i: "inputs ?t = ?i0 # ?bc # []" by (simp add: sampleWithdraw_def)
  have p: "getProposalId sampleEnv ?t sampleProposals (signer ?bc) = Inr (Some ''P1'', [])"
    by code_simp
  have d: "castBallotDecode sampleEnv (drop 4 (msgData ?i0)) =
             Some [ABigNumber 0, ABigNumber 0, ABigNumber 0, ABigNumber 3000000000000000000]"
    by code_simp
  have a: "at [ABigNumber 0, ABigNumber 0, ABigNumber 0, ABigNumber 3000000000000000000] 3 =
             Some (ABigNumber 3000000000000000000)"
    by code_simp
  have m: "(3::int) = 3000000000000000000 sdiv factor18" by code_simp
  have b: "\<bar>3::int\<bar> < 2 ^ 53" by simp
  have k: "''P1'' \<notin> set inheritedNames" by code_simp
  have s: "signer ?bc \<notin> set inheritedNames" by code_simp
  have n: "(- 3::int) = netVotes heldNo3 ''P1'' (signer ?bc)" by code_simp
  have t: "(0::int) = (if True then (if 0 \<le> (- 3::int) then - 3 - 3 else - 3 + 3) else - 3 + 3)"
    by simp
  have z: "\<bar>0::int\<bar> \<le> 2 ^ 53" by simp
  from withdraw_sign_rule [OF f r v w vw i p d a m b k s n t z] f r n show ?thesis
    by simp
qed

text \<open>
  Claim C3. A relevant transaction whose box address matches no proposal of the registry
  leaves every ledger entry as it was, adds its voter to \<^verbatim>\<open>voters\<close>, writes exactly
  one warning, which carries the box address, and the transactions after it are
  processed from the resulting state.
\<close>

theorem unresolved_box_skipped:
  assumes "isVote e t = Inr v" and "isWithdraw e t = Inr w" and "v \<or> w"
    and "inputs t = i0 # bc # rest"
    and "getBoxAddress e t (signer bc) = Inr box"
    and "getProposalByBox proposals box = None"
  shows "\<exists>st'. processTx e proposals st t = Inr st' \<and>
           distr st' = distr st \<and>
           voters st' = insert (signer bc) (voters st) \<and>
           warnings st' = warnings st @ [UnknownProposalVote box] \<and>
           forEach e proposals st (t # ts) = forEach e proposals st' ts"
  by (simp add: processTx_relevant [OF assms(1-4)] getProposalId_unresolved [OF assms(5,6)])

theorem unresolved_box_skipped_witness:
  "\<exists>st'. processTx sampleEnv sampleProposals heldNo3
            (sampleVote ''0xv3'' ''0xcc'' (sampleParams tokens3)) = Inr st' \<and>
         distr st' = distr heldNo3 \<and>
         voters st' = insert ''0xv3'' (voters heldNo3) \<and>
         warnings st' = warnings heldNo3 @ [UnknownProposalVote ''0xcc''] \<and>
         forEach sampleEnv sampleProposals heldNo3
           [sampleVote ''0xv3'' ''0xcc'' (sampleParams tokens3),
            sampleVote ''0xv1'' ''0xa1'' (sampleParams tokens5)] =
         forEach sampleEnv sampleProposals st'
           [sampleVote ''0xv1'' ''0xa1'' (sampleParams tokens5)]"
proof -
  let ?t = "sampleVote ''0xv3'' ''0xcc'' (sampleParams tokens3)"
  let ?i0 = "\<lparr>msgData = [0x01, 0x02, 0x03, 0x04] @ sampleParams tokens3, script = [],
                 signer = ''0xfee''\<rparr>"
  let ?bc = "\<lparr>msgData = [], script = [], signer = ''0xv3''\<rparr>"
  have v: "isVote sampleEnv ?t = Inr True" by code_simp
  have w: "isWithdraw sampleEnv ?t = Inr False" by code_simp
  have i: "inputs ?t = ?i0 # ?bc # []" by (simp add: sampleVote_def)
  have b: "getBoxAddress sampleEnv ?t (signer ?bc) = Inr ''0xcc''" by code_simp
  have p: "getProposalByBox sampleProposals ''0xcc'' = None" by code_simp
  from unresolved_box_skipped [OF v w _ i b p, of heldNo3
      "[sampleVote ''0xv1'' ''0xa1'' (sampleParams tokens5)]"]
  show ?thesis by simp
qed

text \<open>
  Claim C4, as the script has it. Nothing catches the decoder's exception: a relevant
  transaction that resolves to a proposal and whose payload the decoder refuses ends the
  run with that exception, whatever was processed before it and whatever follows; no
  distribution is produced. The counterexample is a run of two transactions in which the
  second, processed alone, is aggregated, and is not once the first fails to decode.
\<close>

theorem decode_failure_aborts:
  assumes "isVote e t = Inr v" and "isWithdraw e t = Inr w" and "v \<or> w"
    and "inputs t = i0 # bc # rest"
    and "getProposalId e t proposals (signer bc) = Inr (Some pid, warned)"
    and "castBallotDecode e (drop 4 (msgData i0)) = None"
    and "forEach e proposals initial earlier = Inr st"
  shows "processTx e proposals st t = Inl DecodeError \<and>
         main e proposals (earlier @ t # later) = Inl DecodeError"
proof -
  have "getVotes e t = Inl DecodeError"
    using assms(4,6) by (rule getVotes_undecodable)
  then have "processTx e proposals st t = Inl DecodeError"
    using assms(5) by (simp add: processTx_relevant [OF assms(1-4)])
  then show ?thesis
    using assms(7) by (simp add: main_def forEach_append)
qed

theorem decode_failure_aborts_witness:
  "processTx sampleEnv sampleProposals
     \<lparr>distr = [(''P2'', [(''0xv2'', 3)])], voters = {''0xv2''}, warnings = []\<rparr>
     (sampleVote ''0xv1'' ''0xa1'' []) = Inl DecodeError \<and>
   main sampleEnv sampleProposals
     ([sampleVote ''0xv2'' ''0xb2'' (sampleParams tokens3)] @
      sampleVote ''0xv1'' ''0xa1'' [] #
      [sampleVote ''0xv3'' ''0xa2'' (sampleParams tokens5)]) = Inl DecodeError"
proof -
  let ?t = "sampleVote ''0xv1'' ''0xa1'' []"
  let ?i0 = "\<lparr>msgData = [0x01, 0x02, 0x03, 0x04] @ [], script = [], signer = ''0xfee''\<rparr>"
  let ?bc = "\<lparr>msgData = [], script = [], signer = ''0xv1''\<rparr>"
  have v: "isVote sampleEnv ?t = Inr True" by code_simp
  have w: "isWithdraw sampleEnv ?t = Inr False" by code_simp
  have i: "inputs ?t = ?i0 # ?bc # []" by (simp add: sampleVote_def)
  have p: "getProposalId sampleEnv ?t sampleProposals (signer ?bc) = Inr (Some ''P1'', [])"
    by code_simp
  have d: "castBallotDecode sampleEnv (drop 4 (msgData ?i0)) = None" by code_simp
  have f: "forEach sampleEnv sampleProposals initial
             [sampleVote ''0xv2'' ''0xb2'' (sampleParams tokens3)] =
           Inr \<lparr>distr = [(''P2'', [(''0xv2'', 3)])], voters = {''0xv2''}, warnings = []\<rparr>"
    by code_simp
  from decode_failure_aborts [OF v w _ i p d f] show ?thesis by simp
qed

theorem decode_failure_counterexample:
  "isVote sampleEnv (sampleVote ''0xv1'' ''0xa1'' []) = Inr True \<and>
   getVotes sampleEnv (sampleVote ''0xv1'' ''0xa1'' []) = Inl DecodeError \<and>
   main sampleEnv sampleProposals
     [sampleVote ''0xv1'' ''0xa1'' [],
      sampleVote ''0xv2'' ''0xb2'' (sampleParams tokens3)] = Inl DecodeError \<and>
   \<not> isl (main sampleEnv sampleProposals
            [sampleVote ''0xv2'' ''0xb2'' (sampleParams tokens3)])"
  by code_simp

text \<open>
  Claim C5, as the script has it. \<^verbatim>\<open>getVotes\<close> decodes the payload after the four
  bytes of the selector with the parameter types of \<^verbatim>\<open>castBallot\<close>, for a vote and
  for a withdrawal alike, and divides the fourth parameter \<open>n\<close> by \<open>10^18\<close>; the
  quotient is the integer part of \<open>\<bar>n\<bar> / 10^18\<close> with the sign of \<open>n\<close>, and must
  fit 53 bits. A vote yields the quotient, a
  withdrawal yields the quotient negated: a withdrawal of a positive amount is emitted
  as a negative number, as the counterexample shows.
\<close>

theorem getVotes_value:
  assumes "inputs t = i0 # rest"
    and "castBallotDecode e (drop 4 (msgData i0)) = Some params"
    and "at params 3 = Some (ABigNumber n)"
    and "isWithdraw e t = Inr w"
    and "\<bar>n sdiv 10 ^ 18\<bar> < 2 ^ 53"
  shows "getVotes e t = Inr (if w then - (n sdiv 10 ^ 18) else n sdiv 10 ^ 18) \<and>
         \<bar>n sdiv 10 ^ 18\<bar> * 10 ^ 18 \<le> \<bar>n\<bar> \<and> \<bar>n\<bar> < (\<bar>n sdiv 10 ^ 18\<bar> + 1) * 10 ^ 18 \<and>
         n sdiv 10 ^ 18 = sgn n * (\<bar>n\<bar> div 10 ^ 18)"
proof -
  have a: "\<bar>n sdiv 10 ^ 18\<bar> = \<bar>n\<bar> div 10 ^ 18"
    by (rule abs_sdiv_nonneg) simp
  have "getVotes e t = Inr (if w then - (n sdiv 10 ^ 18) else n sdiv 10 ^ 18)"
    using assms by (simp add: getVotes_decoded factor18_def)
  moreover have "\<bar>n sdiv 10 ^ 18\<bar> * 10 ^ 18 \<le> \<bar>n\<bar>"
    unfolding a by simp
  moreover have "\<bar>n\<bar> < (\<bar>n sdiv 10 ^ 18\<bar> + 1) * 10 ^ 18"
    unfolding a using div_mult_mod_eq [of "\<bar>n\<bar>" "10 ^ 18"]
      pos_mod_bound [of "10 ^ 18 :: int" "\<bar>n\<bar>"] by (simp add: algebra_simps)
  moreover have "n sdiv 10 ^ 18 = sgn n * (\<bar>n\<bar> div 10 ^ 18)"
    by (rule sdiv_truncates) simp
  ultimately show ?thesis by blast
qed

theorem getVotes_value_witness:
  "getVotes sampleEnv (sampleWithdraw ''0xv2'' [0xb2] (sampleParams tokens5)) = Inr (- 5) \<and>
   (5 :: int) = 5000000000000000000 sdiv 10 ^ 18"
proof -
  let ?t = "sampleWithdraw ''0xv2'' [0xb2] (sampleParams tokens5)"
  let ?i0 = "\<lparr>msgData = [0x0a, 0x0b, 0x0c, 0x0d] @ sampleParams tokens5, script = [0xb2],
                 signer = ''0xfee''\<rparr>"
  let ?ps = "[ABigNumber 0, ABigNumber 0, ABigNumber 0, ABigNumber 5000000000000000000]"
  have i: "inputs ?t = ?i0 # [\<lparr>msgData = [], script = [], signer = ''0xv2''\<rparr>]"
    by (simp add: sampleWithdraw_def)
  have d: "castBallotDecode sampleEnv (drop 4 (msgData ?i0)) = Some ?ps" by code_simp
  have a: "at ?ps 3 = Some (ABigNumber 5000000000000000000)" by code_simp
  have w: "isWithdraw sampleEnv ?t = Inr True" by code_simp
  have q: "(5000000000000000000 :: int) sdiv 10 ^ 18 = 5" by code_simp
  have b: "\<bar>(5000000000000000000 :: int) sdiv 10 ^ 18\<bar> < 2 ^ 53" unfolding q by simp
  from getVotes_value [OF i d a w b] show ?thesis unfolding q by simp
qed

theorem withdraw_emitted_negative_counterexample:
  "isWithdraw sampleEnv (sampleWithdraw ''0xv1'' [0xa1] (sampleParams tokens3)) = Inr True \<and>
   getVotes sampleEnv (sampleWithdraw ''0xv1'' [0xa1] (sampleParams tokens3)) = Inr (- 3) \<and>
   \<not> (0 :: int) < - 3"
  by code_simp

text \<open>
  Claim C6. The voter of a relevant transaction is the signer of the input of index 1.
  For a withdrawal the box address is the hexadecimal form, with the prefix \<^verbatim>\<open>0x\<close>, of
  the RIPEMD-160 digest of the script of the first input. For a vote it is \<open>box\<close>
  exactly when \<open>box\<close> is the address of the first output whose color is \<open>4\<close> and
  whose address is not the voter's.
\<close>

theorem box_address:
  assumes "isVote e t = Inr v" and "isWithdraw e t = Inr w" and "v \<or> w"
    and "inputs t = i0 # bc # rest"
  shows "(processTx e proposals st t = Inr st' \<longrightarrow>
            voters st' = insert (signer bc) (voters st)) \<and>
         (w \<longrightarrow> getBoxAddress e t (signer bc) =
                   Inr (bufferToHex (ripemd160 e (script i0)))) \<and>
         (\<not> w \<longrightarrow>
            (getBoxAddress e t (signer bc) = Inr box \<longleftrightarrow>
               (\<exists>i < length (outputs t).
                  color (outputs t ! i) = 4 \<and> address (outputs t ! i) \<noteq> signer bc \<and>
                  (\<forall>j < i. \<not> (color (outputs t ! j) = 4 \<and>
                                address (outputs t ! j) \<noteq> signer bc)) \<and>
                  box = address (outputs t ! i))))"
proof -
  have 1: "voters st' = insert (signer bc) (voters st)"
    if "processTx e proposals st t = Inr st'"
    using that unfolding processTx_relevant [OF assms]
    by (auto simp: andThen_def Let_def split: sum.splits option.splits prod.splits)
  have 2: "getBoxAddress e t (signer bc) = Inr (bufferToHex (ripemd160 e (script i0)))" if w
    using that assms(2,4) by (simp add: getBoxAddress_def)
  have 3: "getBoxAddress e t (signer bc) = Inr box \<longleftrightarrow>
             (\<exists>i < length (outputs t).
                color (outputs t ! i) = 4 \<and> address (outputs t ! i) \<noteq> signer bc \<and>
                (\<forall>j < i. \<not> (color (outputs t ! j) = 4 \<and>
                              address (outputs t ! j) \<noteq> signer bc)) \<and>
                box = address (outputs t ! i))" if "\<not> w"
  proof (cases "find (\<lambda>out. address out \<noteq> signer bc \<and> color out = 4) (outputs t)")
    case None
    have none: "address x = signer bc \<or> color x \<noteq> 4" if "x \<in> set (outputs t)" for x
      using None that by (auto simp: find_None_iff)
    from None have "getBoxAddress e t (signer bc) = Inl TypeError"
      using \<open>\<not> w\<close> assms(2) by (simp add: getBoxAddress_def)
    moreover have
      "\<not> (\<exists>i < length (outputs t).
                color (outputs t ! i) = 4 \<and> address (outputs t ! i) \<noteq> signer bc \<and>
                (\<forall>j < i. \<not> (color (outputs t ! j) = 4 \<and>
                              address (outputs t ! j) \<noteq> signer bc)) \<and>
                box = address (outputs t ! i))"
      using none nth_mem by blast
    ultimately show ?thesis by simp
  next
    case (Some out)
    then have g: "getBoxAddress e t (signer bc) = Inr (address out)"
      using that assms(2) by (simp add: getBoxAddress_def)
    from Some obtain i where i: "i < length (outputs t)"
      "address (outputs t ! i) \<noteq> signer bc \<and> color (outputs t ! i) = 4"
      "out = outputs t ! i"
      "\<forall>j < i. \<not> (address (outputs t ! j) \<noteq> signer bc \<and> color (outputs t ! j) = 4)"
      unfolding find_Some_iff by blast
    show ?thesis
    proof
      assume "getBoxAddress e t (signer bc) = Inr box"
      with g have "box = address out" by simp
      with i show "\<exists>i < length (outputs t).
                color (outputs t ! i) = 4 \<and> address (outputs t ! i) \<noteq> signer bc \<and>
                (\<forall>j < i. \<not> (color (outputs t ! j) = 4 \<and>
                              address (outputs t ! j) \<noteq> signer bc)) \<and>
                box = address (outputs t ! i)"
        by blast
    next
      assume "\<exists>i < length (outputs t).
                color (outputs t ! i) = 4 \<and> address (outputs t ! i) \<noteq> signer bc \<and>
                (\<forall>j < i. \<not> (color (outputs t ! j) = 4 \<and>
                              address (outputs t ! j) \<noteq> signer bc)) \<and>
                box = address (outputs t ! i)"
      then obtain k where k: "k < length (outputs t)"
        "color (outputs t ! k) = 4 \<and> address (outputs t ! k) \<noteq> signer bc"
        "\<forall>j < k. \<not> (color (outputs t ! j) = 4 \<and> address (outputs t ! j) \<noteq> signer bc)"
        "box = address (outputs t ! k)"
        by blast
      have "k = i"
      proof (rule ccontr)
        assume "k \<noteq> i"
        then consider "k < i" | "i < k" by linarith
        then show False
        proof cases
          case 1
          with i(4) k(2) show False by blast
        next
          case 2
          with k(3) i(2) show False by blast
        qed
      qed
      with k(4) i(3) g show "getBoxAddress e t (signer bc) = Inr box" by simp
    qed
  qed
  from 1 2 3 show ?thesis by blast
qed

theorem box_address_witness:
  "processTx sampleEnv sampleProposals initial
     (sampleVote ''0xv1'' ''0xa1'' (sampleParams tokens5)) = Inr (ledgerOf 5) \<and>
   voters (ledgerOf 5) = insert ''0xv1'' (voters initial) \<and>
   getBoxAddress sampleEnv (sampleVote ''0xv1'' ''0xa1'' (sampleParams tokens5)) ''0xv1'' =
     Inr ''0xa1'' \<and>
   getBoxAddress sampleEnv (sampleWithdraw ''0xv1'' [0xa1] (sampleParams tokens3)) ''0xv1'' =
     Inr (bufferToHex (take 20 [0xa1])) \<and>
   bufferToHex (take 20 [0xa1]) = ''0xa1''"
proof -
  let ?t = "sampleVote ''0xv1'' ''0xa1'' (sampleParams tokens5)"
  let ?i0 = "\<lparr>msgData = [0x01, 0x02, 0x03, 0x04] @ sampleParams tokens5, script = [],
                 signer = ''0xfee''\<rparr>"
  let ?u = "sampleWithdraw ''0xv1'' [0xa1] (sampleParams tokens3)"
  let ?j0 = "\<lparr>msgData = [0x0a, 0x0b, 0x0c, 0x0d] @ sampleParams tokens3, script = [0xa1],
                 signer = ''0xfee''\<rparr>"
  let ?bc = "\<lparr>msgData = [], script = [], signer = ''0xv1''\<rparr>"
  have v: "isVote sampleEnv ?t = Inr True" by code_simp
  have w: "isWithdraw sampleEnv ?t = Inr False" by code_simp
  have i: "inputs ?t = ?i0 # ?bc # []" by (simp add: sampleVote_def)
  have p: "processTx sampleEnv sampleProposals initial ?t = Inr (ledgerOf 5)" by code_simp
  have o: "outputs ?t = [\<lparr>address = ''0xv1'', color = 4, outValue = 1\<rparr>,
                         \<lparr>address = ''0xa1'', color = 4, outValue = 1\<rparr>]"
    by (simp add: sampleVote_def)
  have f: "\<exists>i < length (outputs ?t).
             color (outputs ?t ! i) = 4 \<and> address (outputs ?t ! i) \<noteq> signer ?bc \<and>
             (\<forall>j < i. \<not> (color (outputs ?t ! j) = 4 \<and>
                           address (outputs ?t ! j) \<noteq> signer ?bc)) \<and>
             ''0xa1'' = address (outputs ?t ! i)"
    unfolding o by (rule exI [of _ 1]) simp
  have x: "isVote sampleEnv ?u = Inr False" by code_simp
  have y: "isWithdraw sampleEnv ?u = Inr True" by code_simp
  have z: "inputs ?u = ?j0 # ?bc # []" by (simp add: sampleWithdraw_def)
  have h: "bufferToHex (take 20 [0xa1]) = ''0xa1''" by code_simp
  from box_address [OF v w _ i, of sampleProposals initial "ledgerOf 5" "''0xa1''"] p f
  have "voters (ledgerOf 5) = insert ''0xv1'' (voters initial) \<and>
        getBoxAddress sampleEnv ?t ''0xv1'' = Inr ''0xa1''"
    by simp
  moreover from box_address [OF x y _ z, of sampleProposals initial initial "''''"]
  have "getBoxAddress sampleEnv ?u ''0xv1'' = Inr (bufferToHex (take 20 [0xa1]))"
    by (simp add: sampleEnv_def)
  ultimately show ?thesis using p h by simp
qed

text \<open>
  Claim C9. There are a sequence of transactions and a permutation of it whose final
  ledgers differ: in the first order the second transaction is a withdrawal processed
  when the voter's total is negative, so it is added; in the other order the same
  withdrawals meet a total that is not negative and are subtracted.
\<close>

theorem order_matters:
  "\<exists>txs txs' r r' s.
     mset txs' = mset txs \<and>
     main sampleEnv sampleProposals txs = Inr r \<and>
     main sampleEnv sampleProposals txs' = Inr r' \<and>
     distr (final r) \<noteq> distr (final r') \<and>
     netVotes (final r) ''P1'' ''0xv1'' = 5 \<and>
     netVotes (final r') ''P1'' ''0xv1'' = - 1 \<and>
     isWithdraw sampleEnv (txs ! 1) = Inr True \<and>
     forEach sampleEnv sampleProposals initial (take 1 txs) = Inr s \<and>
     netVotes s ''P1'' ''0xv1'' < 0"
proof -
  let ?r = "\<lparr>final = ledgerOf 5, groupedDistr = [(''P1'', [(5, 1), (0, 0)])],
             distributionByVoteCSV = [''Proposal,Votes,Count'', ''P1,0,0'', ''P1,5,1'']\<rparr>"
  let ?r' = "\<lparr>final = ledgerOf (- 1), groupedDistr = [(''P1'', [(- 1, 1), (0, 0)])],
              distributionByVoteCSV = [''Proposal,Votes,Count'', ''P1,-1,1'', ''P1,0,0'']\<rparr>"
  have p: "mset voteFirst = mset withdrawFirst"
    by (simp add: voteFirst_def withdrawFirst_def)
  have a: "main sampleEnv sampleProposals withdrawFirst = Inr ?r"
    by code_simp
  have b: "main sampleEnv sampleProposals voteFirst = Inr ?r'"
    by code_simp
  have d: "distr (ledgerOf 5) \<noteq> distr (ledgerOf (- 1))"
    by (simp add: ledgerOf_def)
  have n: "netVotes (ledgerOf 5) ''P1'' ''0xv1'' = 5"
    "netVotes (ledgerOf (- 1)) ''P1'' ''0xv1'' = - 1"
    "netVotes (ledgerOf (- 3)) ''P1'' ''0xv1'' < 0"
    by (simp_all add: ledgerOf_def netVotes_def entriesOf_def orZero_def)
  have w: "isWithdraw sampleEnv (withdrawFirst ! 1) = Inr True"
    by code_simp
  have s: "forEach sampleEnv sampleProposals initial (take 1 withdrawFirst) = Inr (ledgerOf (- 3))"
    by code_simp
  have "mset voteFirst = mset withdrawFirst \<and>
     main sampleEnv sampleProposals withdrawFirst = Inr ?r \<and>
     main sampleEnv sampleProposals voteFirst = Inr ?r' \<and>
     distr (final ?r) \<noteq> distr (final ?r') \<and>
     netVotes (final ?r) ''P1'' ''0xv1'' = 5 \<and>
     netVotes (final ?r') ''P1'' ''0xv1'' = - 1 \<and>
     isWithdraw sampleEnv (withdrawFirst ! 1) = Inr True \<and>
     forEach sampleEnv sampleProposals initial (take 1 withdrawFirst) = Inr (ledgerOf (- 3)) \<and>
     netVotes (ledgerOf (- 3)) ''P1'' ''0xv1'' < 0"
    using p a b d n w s by simp
  then show ?thesis by blast
qed

section \<open>The distribution\<close>

text \<open>
  Claim C2. For every proposal of the final distribution, the counts of its buckets add
  up to the number of voters in \<^verbatim>\<open>voters\<close>.
\<close>

theorem bucket_sum_closure:
  assumes "main e proposals txs = Inr r" and "(pid, buckets) \<in> set (groupedDistr r)"
  shows "sum_list (map snd buckets) = int (card (voters (final r)))"
proof -
  from assms have "buckets = countsFor (final r) pid"
    by (simp add: main_Inr(2) grouped_member)
  then show ?thesis by (simp add: sum_countsFor)
qed

theorem bucket_sum_closure_witness:
  "main sampleEnv sampleProposals sampleTxs = Inr sampleReport \<and>
   (''P1'', [(2, 1), (0, 2)]) \<in> set (groupedDistr sampleReport) \<and>
   sum_list (map snd [(2 :: int, 1 :: int), (0, 2)]) = int (card (voters (final sampleReport))) \<and>
   card (voters (final sampleReport)) = 3"
proof -
  have m: "(''P1'', [(2, 1), (0, 2)]) \<in> set (groupedDistr sampleReport)"
    by (simp add: sampleReport_def)
  have c: "card (voters (final sampleReport)) = 3"
    by (simp add: sampleReport_def)
  from bucket_sum_closure [OF main_sampleTxs m] main_sampleTxs m c show ?thesis
    by simp
qed

text \<open>
  Claim C7. For every proposal of the final distribution the bucket of the value \<open>0\<close>
  exists, and its count is the number of voters whose entry for the proposal is \<open>0\<close>
  plus the number of recorded voters minus the number of voters that hold an entry for
  the proposal.
\<close>

theorem zero_bucket_count:
  assumes "main e proposals txs = Inr r" and "(pid, buckets) \<in> set (groupedDistr r)"
  shows "map_of buckets 0 =
           Some (int (card {v \<in> fst ` set (entriesOf (final r) pid).
                             netVotes (final r) pid v = 0})
                 + (int (card (voters (final r)))
                    - int (card (fst ` set (entriesOf (final r) pid)))))"
proof -
  let ?pv = "entriesOf (final r) pid"
  have ok: "ledgerOk (final r)" using assms(1) by (rule main_Inr(4))
  have d: "distinct (map fst ?pv)" using ok by (rule entriesOf_ok(1))
  have b: "buckets = countsFor (final r) pid"
    using assms by (simp add: main_Inr(2) grouped_member)
  have len: "length ?pv = card (fst ` set ?pv)"
    using d distinct_card [of "map fst ?pv"] by simp
  have "{v \<in> fst ` set ?pv. orZero ?pv v = 0} = fst ` set (filter (\<lambda>v. snd v = 0) ?pv)"
    using d by (force simp: orZero_member)
  moreover have "card (fst ` set (filter (\<lambda>v. snd v = 0) ?pv))
                   = length (filter (\<lambda>v. snd v = 0) ?pv)"
    using distinct_card [of "map fst (filter (\<lambda>v. snd v = 0) ?pv)"] d
    by (simp add: distinct_map_filter)
  ultimately have z: "card {v \<in> fst ` set ?pv. netVotes (final r) pid v = 0}
                        = length (filter (\<lambda>v. snd v = 0) ?pv)"
    by (simp add: netVotes_def)
  show ?thesis
    unfolding b zero_countsFor z len by simp
qed

theorem zero_bucket_count_witness:
  "main sampleEnv sampleProposals sampleTxs = Inr sampleReport \<and>
   (''P1'', [(2, 1), (0, 2)]) \<in> set (groupedDistr sampleReport) \<and>
   {v \<in> fst ` set (entriesOf (final sampleReport) ''P1'').
      netVotes (final sampleReport) ''P1'' v = 0} = {''0xv2''} \<and>
   fst ` set (entriesOf (final sampleReport) ''P1'') = {''0xv1'', ''0xv2''} \<and>
   card (voters (final sampleReport)) = 3 \<and>
   map_of [(2 :: int, 1 :: int), (0, 2)] 0 = Some (1 + (3 - 2))"
proof -
  have m: "(''P1'', [(2, 1), (0, 2)]) \<in> set (groupedDistr sampleReport)"
    by (simp add: sampleReport_def)
  have p: "fst ` set (entriesOf (final sampleReport) ''P1'') = {''0xv1'', ''0xv2''}"
    by (simp add: sampleReport_def entriesOf_def)
  have z: "{v \<in> fst ` set (entriesOf (final sampleReport) ''P1'').
             netVotes (final sampleReport) ''P1'' v = 0} = {''0xv2''}"
    unfolding p by (auto simp: sampleReport_def netVotes_def entriesOf_def orZero_def)
  have c: "card (voters (final sampleReport)) = 3"
    by (simp add: sampleReport_def)
  from zero_bucket_count [OF main_sampleTxs m] main_sampleTxs m p z c show ?thesis
    by simp
qed

text \<open>
  Claim C10. Every count of every bucket of the final distribution is at least \<open>0\<close>:
  whoever holds an entry for a proposal is a recorded voter, so the voters with an entry
  are at most as many as the recorded voters, and what is added to the bucket of \<open>0\<close>
  is not negative.
\<close>

theorem counts_nonnegative:
  assumes "main e proposals txs = Inr r" and "(pid, buckets) \<in> set (groupedDistr r)"
    and "(votes, cnt) \<in> set buckets"
  shows "fst ` set (entriesOf (final r) pid) \<subseteq> voters (final r) \<and>
         card (fst ` set (entriesOf (final r) pid)) \<le> card (voters (final r)) \<and>
         0 \<le> cnt"
proof -
  have ok: "ledgerOk (final r)" using assms(1) by (rule main_Inr(4))
  have b: "buckets = countsFor (final r) pid"
    using assms by (simp add: main_Inr(2) grouped_member)
  have len: "length (entriesOf (final r) pid) = card (fst ` set (entriesOf (final r) pid))"
    using entriesOf_ok(1) [OF ok, of pid] distinct_card [of "map fst (entriesOf (final r) pid)"]
    by simp
  have le: "length (entriesOf (final r) pid) \<le> card (voters (final r))"
    using ok by (rule participants_le_voters)
  have "0 \<le> cnt"
    using le assms(3) unfolding b by (rule countsFor_nonneg)
  with le len entriesOf_ok(2) [OF ok, of pid] show ?thesis by simp
qed

theorem counts_nonnegative_witness:
  "main sampleEnv sampleProposals sampleTxs = Inr sampleReport \<and>
   (''P2'', [(3, 1), (0, 2)]) \<in> set (groupedDistr sampleReport) \<and>
   (0 :: int, 2 :: int) \<in> set [(3, 1), (0, 2)] \<and>
   fst ` set (entriesOf (final sampleReport) ''P2'') \<subseteq> voters (final sampleReport) \<and>
   card (fst ` set (entriesOf (final sampleReport) ''P2'')) \<le> card (voters (final sampleReport)) \<and>
   (0 :: int) \<le> 2"
proof -
  have m: "(''P2'', [(3, 1), (0, 2)]) \<in> set (groupedDistr sampleReport)"
    by (simp add: sampleReport_def)
  have b: "(0 :: int, 2 :: int) \<in> set [(3, 1), (0, 2)]"
    by simp
  from counts_nonnegative [OF main_sampleTxs m b] main_sampleTxs m b show ?thesis
    by simp
qed

section \<open>The file\<close>

text \<open>
  Claim C8. The proposals of the final distribution are in strictly ascending
  lexicographic order of their ids (the order of \<^typ>\<open>string\<close> compares character by
  character, a proper prefix first). The file is the header \<^verbatim>\<open>Proposal,Votes,Count\<close>
  followed by the rendering of a list of triples which are exactly the triples
  (proposal, votes, count) of the distribution and which ascend strictly by proposal
  and, in a proposal, by votes: the rows of a proposal are adjacent, and every triple
  has one row.
\<close>

theorem csv_order:
  assumes "main e proposals txs = Inr r"
  shows "sorted_wrt (<) (map fst (groupedDistr r)) \<and>
    (\<exists>rows.
       distributionByVoteCSV r =
         ''Proposal,Votes,Count'' #
         map (\<lambda>(pid, votes, cnt). pid @ '','' @ showInt votes @ '','' @ showInt cnt) rows \<and>
       set rows =
         {(pid, votes, cnt).
            \<exists>buckets. (pid, buckets) \<in> set (groupedDistr r) \<and> (votes, cnt) \<in> set buckets} \<and>
       sorted_wrt (\<lambda>a b. fst a < fst b \<or> (fst a = fst b \<and> fst (snd a) < fst (snd b))) rows)"
proof -
  have ok: "ledgerOk (final r)" using assms by (rule main_Inr(4))
  have g: "groupedDistr r = grouped (final r)" using assms by (rule main_Inr(2))
  have keys: "sorted_wrt (<) (map fst (groupedDistr r))"
    using ok by (simp add: g grouped_keys strict_sorted_iff ledgerOk_def)
  have "distributionByVoteCSV r =
         ''Proposal,Votes,Count'' #
         map (\<lambda>(pid, votes, cnt). pid @ '','' @ showInt votes @ '','' @ showInt cnt)
           (rowsOf (groupedDistr r))"
    using main_Inr(3) [OF assms] by (simp add: g csvLines_rowsOf)
  moreover have "sorted_wrt (\<lambda>a b. fst a < fst b \<or> (fst a = fst b \<and> fst (snd a) < fst (snd b)))
                   (rowsOf (groupedDistr r))"
    using keys grouped_buckets_distinct [of "final r"] unfolding g by (rule sorted_rowsOf)
  ultimately show ?thesis
    using keys set_rowsOf [of "groupedDistr r"] by blast
qed

theorem csv_order_witness:
  "main sampleEnv sampleProposals sampleTxs = Inr sampleReport \<and>
   sorted_wrt (<) [''P1'', ''P2''] \<and>
   (\<exists>rows.
      [''Proposal,Votes,Count'', ''P1,0,2'', ''P1,2,1'', ''P2,0,2'', ''P2,3,1''] =
        ''Proposal,Votes,Count'' #
        map (\<lambda>(pid, votes, cnt). pid @ '','' @ showInt votes @ '','' @ showInt cnt) rows \<and>
      set rows =
         {(pid, votes, cnt).
            \<exists>buckets. (pid, buckets) \<in> set (groupedDistr sampleReport) \<and>
              (votes, cnt) \<in> set buckets} \<and>
      sorted_wrt (\<lambda>a b. fst a < fst b \<or> (fst a = fst b \<and> fst (snd a) < fst (snd b))) rows)"
proof -
  have g: "map fst (groupedDistr sampleReport) = [''P1'', ''P2'']"
    by (simp add: sampleReport_def)
  have c: "distributionByVoteCSV sampleReport =
             [''Proposal,Votes,Count'', ''P1,0,2'', ''P1,2,1'', ''P2,0,2'', ''P2,3,1'']"
    by (simp add: sampleReport_def)
  from csv_order [OF main_sampleTxs] main_sampleTxs show ?thesis
    unfolding g c by simp
qed

end
